theory Spec2Isabelle
  imports Main "HOL-Library.Char_ord" "HOL-Library.List_Lexorder"
begin

section \<open>Tasnuva TOS: the virtual file system of \<^verbatim>\<open>vfs.py\<close>\<close>

text \<open>
  The class \<^verbatim>\<open>VFS\<close> keeps one table \<^verbatim>\<open>filesystem\<close> in an SQLite database and one
  attribute \<^verbatim>\<open>current_path\<close>. The table is modelled as the list of its rows in rowid
  order (an \<^verbatim>\<open>INSERT\<close> appends, a \<^verbatim>\<open>DELETE\<close> drops rows and leaves the others
  in place), the object as a record of the table and the cursor. Strings are \<^typ>\<open>string\<close>,
  their characters the code points below 256, NUL among them, as Python's \<^verbatim>\<open>str\<close> holds
  them; text is compared as SQLite's default \<^verbatim>\<open>BINARY\<close> collation does, character code by
  character code, which is the order of \<^typ>\<open>string\<close> under \<^verbatim>\<open>Char_ord\<close> and
  \<^verbatim>\<open>List_Lexorder\<close>. The columns \<^verbatim>\<open>id\<close>, \<^verbatim>\<open>created_at\<close> and
  \<^verbatim>\<open>modified_at\<close> are never read by \<^verbatim>\<open>vfs.py\<close> and are left out.
\<close>

subsection \<open>Python string helpers\<close>

text \<open>\<^verbatim>\<open>str.startswith('/')\<close>.\<close>

definition startswith_slash :: "string \<Rightarrow> bool" where
  "startswith_slash p = (case p of [] \<Rightarrow> False | c # _ \<Rightarrow> c = CHR ''/'')"

text \<open>\<^verbatim>\<open>str.split(sep)\<close> for a one-character separator: never the empty list.\<close>

fun split :: "char \<Rightarrow> string \<Rightarrow> string list" where
  "split sep [] = [[]]"
| "split sep (c # cs) =
     (if c = sep then [] # split sep cs
      else (c # hd (split sep cs)) # tl (split sep cs))"

text \<open>\<^verbatim>\<open>sep.join(parts)\<close>.\<close>

fun join :: "string \<Rightarrow> string list \<Rightarrow> string" where
  "join sep [] = []"
| "join sep [w] = w"
| "join sep (w # v # ws) = w @ sep @ join sep (v # ws)"

text \<open>
  \<^verbatim>\<open>os.path.basename\<close> and \<^verbatim>\<open>os.path.dirname\<close> of \<^verbatim>\<open>posixpath\<close>: the path is cut
  after its last slash; the head loses its trailing slashes unless it is made of slashes only.
\<close>

definition basename :: "string \<Rightarrow> string" where
  "basename p = rev (takeWhile (\<lambda>c. c \<noteq> CHR ''/'') (rev p))"

definition dirname :: "string \<Rightarrow> string" where
  "dirname p =
     (let head = rev (dropWhile (\<lambda>c. c \<noteq> CHR ''/'') (rev p))
      in if head \<noteq> [] \<and> (\<exists>c \<in> set head. c \<noteq> CHR ''/'')
         then rev (dropWhile (\<lambda>c. c = CHR ''/'') (rev head))
         else head)"

subsection \<open>The table and the SQL statements the code issues\<close>

record row =
  path :: string
  name :: string
  rtype :: string
  content :: string

datatype error = IntegrityError | OperationalError

text \<open>
  \<^verbatim>\<open>INSERT INTO filesystem\<close>: the column \<^verbatim>\<open>path\<close> is \<^verbatim>\<open>UNIQUE\<close> and the column
  \<^verbatim>\<open>type\<close> carries \<^verbatim>\<open>CHECK (type IN ('file', 'directory'))\<close>; a row that breaks
  either constraint raises \<^verbatim>\<open>sqlite3.IntegrityError\<close>.
\<close>

definition sql_insert :: "row \<Rightarrow> row list \<Rightarrow> error + row list" where
  "sql_insert r t =
     (if path r \<in> set (map path t) \<or> rtype r \<notin> {''file'', ''directory''}
      then Inl IntegrityError else Inr (t @ [r]))"

fun sql_insert_many :: "row list \<Rightarrow> row list \<Rightarrow> error + row list" where
  "sql_insert_many [] t = Inr t"
| "sql_insert_many (r # rs) t =
     (case sql_insert r t of Inl e \<Rightarrow> Inl e | Inr t' \<Rightarrow> sql_insert_many rs t')"

text \<open>\<^verbatim>\<open>SELECT COUNT(*) FROM filesystem WHERE path = ?\<close>\<close>

definition sql_count_path :: "row list \<Rightarrow> string \<Rightarrow> nat" where
  "sql_count_path t p = length (filter (\<lambda>r. path r = p) t)"

text \<open>\<^verbatim>\<open>SELECT ... FROM filesystem WHERE path = ?\<close> followed by \<^verbatim>\<open>fetchone()\<close>.\<close>

definition sql_fetchone :: "row list \<Rightarrow> string \<Rightarrow> row option" where
  "sql_fetchone t p = find (\<lambda>r. path r = p) t"

text \<open>\<^verbatim>\<open>UPDATE filesystem SET content = ? WHERE path = ?\<close>\<close>

definition sql_update_content :: "row list \<Rightarrow> string \<Rightarrow> string \<Rightarrow> row list" where
  "sql_update_content t p c = map (\<lambda>r. if path r = p then r\<lparr>content := c\<rparr> else r) t"

text \<open>\<^verbatim>\<open>DELETE FROM filesystem WHERE path = ?\<close>\<close>

definition sql_delete :: "row list \<Rightarrow> string \<Rightarrow> row list" where
  "sql_delete t p = filter (\<lambda>r. path r \<noteq> p) t"

subsection \<open>SQLite's \<^verbatim>\<open>GLOB\<close> operator\<close>

text \<open>
  \<^verbatim>\<open>GLOB\<close> matches the whole string against a pattern in which \<^verbatim>\<open>*\<close> stands for any
  run of characters (a slash is a character like any other), \<^verbatim>\<open>?\<close> for one character and
  \<^verbatim>\<open>[...]\<close> for one character of a set: a leading \<^verbatim>\<open>^\<close> inverts the set, a
  \<^verbatim>\<open>]\<close> right after the opening is a member, \<^verbatim>\<open>a-z\<close> is a range, and a set that
  is never closed matches nothing. \<open>glob_set_body\<close> scans the members of a set for the
  character \<open>c\<close>, remembering the previous member for a range, and returns whether \<open>c\<close> was
  seen together with the pattern after the closing bracket.
\<close>

fun glob_set_body :: "char \<Rightarrow> char option \<Rightarrow> bool \<Rightarrow> string \<Rightarrow> (bool \<times> string) option" where
  "glob_set_body c prior seen [] = None"
| "glob_set_body c prior seen [m] = (if m = CHR '']'' then Some (seen, []) else None)"
| "glob_set_body c prior seen (m # n # pat) =
     (if m = CHR '']'' then Some (seen, n # pat)
      else if m = CHR ''-'' \<and> n \<noteq> CHR '']'' \<and> prior \<noteq> None
      then glob_set_body c None (seen \<or> (the prior \<le> c \<and> c \<le> n)) pat
      else glob_set_body c (Some m) (seen \<or> c = m) (n # pat))"

definition glob_set :: "char \<Rightarrow> string \<Rightarrow> string option" where
  "glob_set c pat =
     (let (invert, p1) = (case pat of [] \<Rightarrow> (False, [])
                          | x # r \<Rightarrow> if x = CHR ''^'' then (True, r) else (False, pat));
          (seen0, p2) = (case p1 of [] \<Rightarrow> (False, [])
                         | x # r \<Rightarrow> if x = CHR '']'' then (c = CHR '']'', r) else (False, p1))
      in case glob_set_body c None seen0 p2 of
           None \<Rightarrow> None
         | Some (seen, rest) \<Rightarrow> if seen \<noteq> invert then Some rest else None)"

fun glob :: "string \<Rightarrow> string \<Rightarrow> bool" where
  "glob [] s = (s = [])"
| "glob (c # pat) [] = (c = CHR ''*'' \<and> glob pat [])"
| "glob (c # pat) (x # s) =
     (if c = CHR ''*'' then glob pat (x # s) \<or> glob (c # pat) s
      else if c = CHR ''['' then (case glob_set x pat of None \<Rightarrow> False | Some rest \<Rightarrow> glob rest s)
      else (c = x \<or> c = CHR ''?'') \<and> glob pat s)"

text \<open>
  The operands as SQLite's \<^verbatim>\<open>GLOB\<close> reads them: up to their first NUL character. The
  comparisons \<^verbatim>\<open>path = ?\<close>, the \<^verbatim>\<open>UNIQUE\<close> index and \<^verbatim>\<open>ORDER BY\<close> read the whole
  text.
\<close>

definition cstr :: "string \<Rightarrow> string" where
  "cstr s = takeWhile (\<lambda>c. c \<noteq> CHR 0x00) s"

text \<open>The number of bytes of a text in UTF-8, for code points below 256.\<close>

definition utf8_length :: "string \<Rightarrow> int" where
  "utf8_length s = sum_list (map (\<lambda>c. if (of_char c :: int) < 128 then 1 else 2) s)"

definition wildcard :: "char \<Rightarrow> bool" where
  "wildcard c = (c = CHR ''*'' \<or> c = CHR ''?'' \<or> c = CHR ''['')"

text \<open>
  \<^verbatim>\<open>SELECT ... FROM filesystem WHERE path GLOB ?\<close>. SQLite answers it through the index
  on \<^verbatim>\<open>path\<close>: with \<open>glob_prefix\<close> the part of the pattern before its first wildcard, it
  visits the rows whose path begins with that prefix and calls \<^verbatim>\<open>GLOB\<close> on each of them;
  when the pattern is a non-empty prefix followed by one star and nothing else, the visited
  rows are the result and \<^verbatim>\<open>GLOB\<close> is not called. A call of \<^verbatim>\<open>GLOB\<close> with a pattern
  of more than 50000 bytes raises \<^verbatim>\<open>sqlite3.OperationalError\<close>.
\<close>

definition glob_prefix :: "string \<Rightarrow> string" where
  "glob_prefix pattern = takeWhile (\<lambda>c. \<not> wildcard c) (cstr pattern)"

definition glob_complete :: "string \<Rightarrow> bool" where
  "glob_complete pattern =
     (glob_prefix pattern \<noteq> [] \<and> cstr pattern = glob_prefix pattern @ ''*'')"

definition sql_glob :: "row list \<Rightarrow> string \<Rightarrow> error + row list" where
  "sql_glob t pattern =
     (if 50000 < utf8_length pattern \<and> \<not> glob_complete pattern \<and>
         (\<exists>r \<in> set t. take (length (glob_prefix pattern)) (path r) = glob_prefix pattern)
      then Inl OperationalError
      else Inr (filter (\<lambda>r. glob (cstr pattern) (cstr (path r))) t))"

text \<open>
  \<^verbatim>\<open>ORDER BY type DESC, name\<close>: a row comes before another when its type is the greater
  text, or the types are equal and its name is not greater. SQL leaves the order of rows
  that agree on both columns open; the model keeps them in table order.
\<close>

definition row_le :: "row \<Rightarrow> row \<Rightarrow> bool" where
  "row_le a b = (rtype b < rtype a \<or> (rtype a = rtype b \<and> name a \<le> name b))"

fun insert_row :: "row \<Rightarrow> row list \<Rightarrow> row list" where
  "insert_row r [] = [r]"
| "insert_row r (x # xs) = (if row_le r x then r # x # xs else x # insert_row r xs)"

definition order_by_type_desc_name :: "row list \<Rightarrow> row list" where
  "order_by_type_desc_name t = foldr insert_row t []"

subsection \<open>The class \<^verbatim>\<open>VFS\<close>\<close>

record vfs =
  rows :: "row list"
  current_path :: string

definition welcome_text :: string where
  "welcome_text =
     ''Welcome to Tasnuva TOS!'' @ [CHR 0x0A] @
     ''This is a virtual filesystem.'' @ [CHR 0x0A] @
     ''Try commands like ls, cd, mkdir, touch, cat, echo, rm.'' @ [CHR 0x0A]"

definition default_dirs :: "string list" where
  "default_dirs = [''/home'', ''/tmp'', ''/usr'', ''/var'']"

definition default_rows :: "row list" where
  "default_rows =
     \<lparr>path = ''/'', name = ''root'', rtype = ''directory'', content = ''''\<rparr> #
     map (\<lambda>d. \<lparr>path = d, name = basename d, rtype = ''directory'', content = ''''\<rparr>) default_dirs @
     [\<lparr>path = ''/welcome.txt'', name = ''welcome.txt'', rtype = ''file'', content = welcome_text\<rparr>]"

text \<open>
  \<^verbatim>\<open>init_database\<close>: the table is created if it is missing, and filled with the default
  structure when it has no root row.
\<close>

definition init_database :: "row list \<Rightarrow> error + row list" where
  "init_database t =
     (if sql_count_path t ''/'' = 0 then sql_insert_many default_rows t else Inr t)"

text \<open>\<^verbatim>\<open>VFS.__init__\<close> on the table found in the database file.\<close>

definition VFS_init :: "row list \<Rightarrow> error + vfs" where
  "VFS_init t =
     (case init_database t of Inl e \<Rightarrow> Inl e
      | Inr t' \<Rightarrow> Inr \<lparr>rows = t', current_path = ''/''\<rparr>)"

text \<open>The object built on a new, empty database file.\<close>

definition vfs0 :: vfs where
  "vfs0 = \<lparr>rows = default_rows, current_path = ''/''\<rparr>"

text \<open>
  \<^verbatim>\<open>normalize_path\<close>: the loop over \<^verbatim>\<open>path.split('/')\<close> is \<open>resolve\<close>, with the list
  \<^verbatim>\<open>parts\<close> as its first argument.
\<close>

fun resolve :: "string list \<Rightarrow> string list \<Rightarrow> string list" where
  "resolve parts [] = parts"
| "resolve parts (part # rest) =
     (if part = '''' \<or> part = ''.'' then resolve parts rest
      else if part = ''..'' then resolve (if parts \<noteq> [] then butlast parts else parts) rest
      else resolve (parts @ [part]) rest)"

definition normalize_path :: "string \<Rightarrow> string \<Rightarrow> string" where
  "normalize_path cur p =
     (let p' = (if \<not> startswith_slash p
                then (if cur = ''/'' then ''/'' @ p else cur @ ''/'' @ p)
                else p);
          parts = resolve [] (split CHR ''/'' p')
      in if parts \<noteq> [] then ''/'' @ join ''/'' parts else ''/'')"

definition exists :: "vfs \<Rightarrow> string \<Rightarrow> bool" where
  "exists s p = (sql_count_path (rows s) (normalize_path (current_path s) p) > 0)"

definition is_directory :: "vfs \<Rightarrow> string \<Rightarrow> bool" where
  "is_directory s p =
     (case sql_fetchone (rows s) (normalize_path (current_path s) p) of
        None \<Rightarrow> False | Some r \<Rightarrow> rtype r = ''directory'')"

definition is_file :: "vfs \<Rightarrow> string \<Rightarrow> bool" where
  "is_file s p =
     (case sql_fetchone (rows s) (normalize_path (current_path s) p) of
        None \<Rightarrow> False | Some r \<Rightarrow> rtype r = ''file'')"

text \<open>The pattern both \<^verbatim>\<open>list_directory\<close> and \<^verbatim>\<open>remove\<close> build for the children of a path.\<close>

definition children_pattern :: "string \<Rightarrow> string" where
  "children_pattern p = (if p = ''/'' then ''/[^/]*'' else p @ ''/[^/]*'')"

definition list_directory ::
    "vfs \<Rightarrow> string option \<Rightarrow> error + (string \<times> string) list option" where
  "list_directory s popt =
     (let p0 = (case popt of None \<Rightarrow> current_path s | Some p \<Rightarrow> p);
          p = normalize_path (current_path s) p0
      in if \<not> exists s p \<or> \<not> is_directory s p then Inr None
         else (case sql_glob (rows s) (children_pattern p) of
                 Inl e \<Rightarrow> Inl e
               | Inr found \<Rightarrow>
                   Inr (Some (map (\<lambda>r. (name r, rtype r))
                     (order_by_type_desc_name (filter (\<lambda>r. path r \<noteq> p) found))))))"

definition read_file :: "vfs \<Rightarrow> string \<Rightarrow> string option" where
  "read_file s p0 =
     (let p = normalize_path (current_path s) p0
      in if \<not> exists s p \<or> \<not> is_file s p then None
         else (case sql_fetchone (rows s) p of None \<Rightarrow> None | Some r \<Rightarrow> Some (content r)))"

text \<open>
  The mutating methods return their boolean together with the object afterwards, or the
  exception a statement raised.
\<close>

definition write_file :: "vfs \<Rightarrow> string \<Rightarrow> string \<Rightarrow> bool \<Rightarrow> error + (bool \<times> vfs)" where
  "write_file s p0 c app =
     (let p = normalize_path (current_path s) p0
      in if exists s p then
           (if \<not> is_file s p then Inr (False, s)
            else
              (let c' = (if app   
                         then (case sql_fetchone (rows s) p of
                                 None \<Rightarrow> c | Some r \<Rightarrow> content r @ c)
                         else c)
               in Inr (True, s\<lparr>rows := sql_update_content (rows s) p c'\<rparr>)))
         else
           (case sql_insert \<lparr>path = p, name = basename p, rtype = ''file'', content = c\<rparr> (rows s) of
              Inl e \<Rightarrow> Inl e
            | Inr t \<Rightarrow> Inr (True, s\<lparr>rows := t\<rparr>)))"

definition create_directory :: "vfs \<Rightarrow> string \<Rightarrow> error + (bool \<times> vfs)" where
  "create_directory s p0 =
     (let p = normalize_path (current_path s) p0
      in if exists s p then Inr (False, s)
         else
           (let parent = dirname p
            in if parent \<noteq> p \<and> \<not> exists s parent then Inr (False, s)
               else
                 (case sql_insert \<lparr>path = p, name = basename p, rtype = ''directory'', content = ''''\<rparr>
                         (rows s) of
                    Inl e \<Rightarrow> Inl e
                  | Inr t \<Rightarrow> Inr (True, s\<lparr>rows := t\<rparr>))))"

definition remove :: "vfs \<Rightarrow> string \<Rightarrow> error + (bool \<times> vfs)" where
  "remove s p0 =
     (let p = normalize_path (current_path s) p0
      in if \<not> exists s p then Inr (False, s)
         else if is_directory s p then
           (case sql_glob (rows s) (children_pattern p) of
              Inl e \<Rightarrow> Inl e
            | Inr found \<Rightarrow>
                if length found > 0 then Inr (False, s)
                else Inr (True, s\<lparr>rows := sql_delete (rows s) p\<rparr>))
         else Inr (True, s\<lparr>rows := sql_delete (rows s) p\<rparr>))"

definition change_directory :: "vfs \<Rightarrow> string \<Rightarrow> bool \<times> vfs" where
  "change_directory s p0 =
     (let p = normalize_path (current_path s) p0
      in if \<not> exists s p \<or> \<not> is_directory s p then (False, s)
         else (True, s\<lparr>current_path := p\<rparr>))"

definition get_current_directory :: "vfs \<Rightarrow> string" where
  "get_current_directory s = current_path s"

text \<open>
  \<^verbatim>\<open>reset_filesystem\<close> drops the table, creates it again, sets the cursor to the root
  and inserts the default rows into the empty table.
\<close>

definition reset_filesystem :: "vfs \<Rightarrow> error + (bool \<times> vfs)" where
  "reset_filesystem s =
     (case sql_insert_many default_rows [] of
        Inl e \<Rightarrow> Inl e
      | Inr t \<Rightarrow> Inr (True, s\<lparr>rows := t, current_path := ''/''\<rparr>))"

subsection \<open>Sequences of operations\<close>

text \<open>
  The mutating calls the command layer makes. A call that raises leaves table and cursor
  as they were: the exception is caught in \<^verbatim>\<open>execute_command\<close> and nothing was committed.
\<close>

datatype op =
    WriteFile string string bool
  | CreateDirectory string
  | Remove string
  | ChangeDirectory string
  | Reset

fun after :: "vfs \<Rightarrow> error + (bool \<times> vfs) \<Rightarrow> vfs" where
  "after s (Inl e) = s"
| "after s (Inr (b, s')) = s'"

fun exec :: "op \<Rightarrow> vfs \<Rightarrow> vfs" where
  "exec (WriteFile p c a) s = after s (write_file s p c a)"
| "exec (CreateDirectory p) s = after s (create_directory s p)"
| "exec (Remove p) s = after s (remove s p)"
| "exec (ChangeDirectory p) s = snd (change_directory s p)"
| "exec Reset s = after s (reset_filesystem s)"

definition run :: "op list \<Rightarrow> vfs \<Rightarrow> vfs" where
  "run ops s = foldl (\<lambda>s' o'. exec o' s') s ops"

subsection \<open>Canonical paths\<close>

text \<open>
  A segment a normalized path may hold: not empty, not \<^verbatim>\<open>.\<close>, not \<^verbatim>\<open>..\<close>, free of
  slashes. A canonical path is the root, or a slash followed by such segments with single
  slashes between them.
\<close>

definition good_part :: "string \<Rightarrow> bool" where
  "good_part w = (w \<noteq> [] \<and> w \<noteq> ''.'' \<and> w \<noteq> ''..'' \<and> CHR ''/'' \<notin> set w)"

definition canonical :: "string \<Rightarrow> bool" where
  "canonical p =
     (p = ''/'' \<or> (startswith_slash p \<and> (\<forall>w \<in> set (split CHR ''/'' (tl p)). good_part w)))"

subsection \<open>The constraints every reachable object meets\<close>

text \<open>
  The table keeps \<^verbatim>\<open>path\<close> unique, every stored path canonical and every type one of the
  two the \<^verbatim>\<open>CHECK\<close> constraint admits; the cursor is canonical.
\<close>

definition wf_table :: "row list \<Rightarrow> bool" where
  "wf_table t =
     (distinct (map path t) \<and>
      (\<forall>r \<in> set t. canonical (path r) \<and> rtype r \<in> {''file'', ''directory''}))"

definition wf :: "vfs \<Rightarrow> bool" where
  "wf s = (wf_table (rows s) \<and> canonical (current_path s))"

subsection \<open>Orders of a listing\<close>

text \<open>
  Two orders a listing of \<open>(name, type)\<close> pairs may follow. In \<open>dirs_first\<close> no file stands
  before a directory; in \<open>files_first\<close> no directory stands before a file. In both, entries
  of one type are in ascending order of their names.
\<close>

definition dirs_first :: "(string \<times> string) list \<Rightarrow> bool" where
  "dirs_first xs =
     sorted_wrt (\<lambda>a b. \<not> (snd a = ''file'' \<and> snd b = ''directory'') \<and>
                        (snd a = snd b \<longrightarrow> fst a \<le> fst b)) xs"

definition files_first :: "(string \<times> string) list \<Rightarrow> bool" where
  "files_first xs =
     sorted_wrt (\<lambda>a b. \<not> (snd a = ''directory'' \<and> snd b = ''file'') \<and>
                        (snd a = snd b \<longrightarrow> fst a \<le> fst b)) xs"

text \<open>Whether a mutating call returned \<^verbatim>\<open>True\<close>; a call that raised did not.\<close>

fun returns_true :: "error + (bool \<times> vfs) \<Rightarrow> bool" where
  "returns_true (Inl e) = False"
| "returns_true (Inr (b, s)) = b"



text \<open>The cursor is the path of a stored directory.\<close>

definition cursor_valid :: "vfs \<Rightarrow> bool" where
  "cursor_valid s = (\<exists>r \<in> set (rows s). path r = current_path s \<and> rtype r = ''directory'')"

text \<open>
  A path lies strictly under a directory when it extends the directory's path by a slash
  and at least one more character (for the root, whose path is the slash: by at least one
  character).
\<close>

definition nested_under :: "string \<Rightarrow> string \<Rightarrow> bool" where
  "nested_under d q =
     (let pre = (if d = ''/'' then ''/'' else d @ ''/'')
      in take (length pre) q = pre \<and> length pre < length q)"

text \<open>The stored paths that lie strictly under a directory.\<close>

definition descendants :: "vfs \<Rightarrow> string \<Rightarrow> string list" where
  "descendants s d = filter (nested_under d) (map path (rows s))"



section \<open>Properties\<close>

subsection \<open>Splitting, joining and normalization\<close>

lemma split_not_Nil [simp]: "split c s \<noteq> []"
  by (induction s) auto

lemma split_no_sep: "w \<in> set (split c s) \<Longrightarrow> c \<notin> set w"
proof (induction s arbitrary: w)
  case Nil
  then show ?case by simp
next
  case (Cons x xs)
  obtain h t where ht: "split c xs = h # t"
    by (cases "split c xs") auto
  show ?case
  proof (cases "x = c")
    case True
    with Cons show ?thesis by auto
  next
    case False
    with Cons.prems ht have "w = x # h \<or> w \<in> set t" by auto
    then show ?thesis
    proof
      assume "w = x # h"
      moreover have "c \<notin> set h" using Cons.IH [of h] ht by simp
      ultimately show ?thesis using False by auto
    next
      assume "w \<in> set t"
      then show ?thesis using Cons.IH [of w] ht by simp
    qed
  qed
qed

lemma join_Cons_Cons: "join sep ((x # w) # ws) = x # join sep (w # ws)"
  by (cases ws) auto

lemma join_split: "join [c] (split c s) = s"
proof (induction s)
  case Nil
  then show ?case by simp
next
  case (Cons x xs)
  obtain h t where ht: "split c xs = h # t"
    by (cases "split c xs") auto
  show ?case
  proof (cases "x = c")
    case True
    then show ?thesis using Cons ht by simp
  next
    case False
    then show ?thesis using Cons ht by (simp add: join_Cons_Cons)
  qed
qed

lemma split_no_occurrence: "c \<notin> set w \<Longrightarrow> split c w = [w]"
  by (induction w) auto

lemma split_append_sep: "c \<notin> set w \<Longrightarrow> split c (w @ c # s) = w # split c s"
  by (induction w) auto

lemma split_join:
  "ws \<noteq> [] \<Longrightarrow> \<forall>w \<in> set ws. c \<notin> set w \<Longrightarrow> split c (join [c] ws) = ws"
proof (induction ws)
  case Nil
  then show ?case by simp
next
  case (Cons w ws)
  show ?case
  proof (cases ws)
    case Nil
    with Cons.prems show ?thesis by (simp add: split_no_occurrence)
  next
    case (Cons v vs)
    with Cons.IH Cons.prems show ?thesis by (simp add: split_append_sep)
  qed
qed

lemma resolve_good:
  "\<forall>w \<in> set acc. good_part w \<Longrightarrow> \<forall>w \<in> set ws. CHR ''/'' \<notin> set w
   \<Longrightarrow> \<forall>w \<in> set (resolve acc ws). good_part w"
proof (induction ws arbitrary: acc)
  case Nil
  then show ?case by simp
next
  case (Cons w ws)
  have rest: "\<forall>v \<in> set ws. CHR ''/'' \<notin> set v"
    using Cons.prems(2) by simp
  have bl: "\<forall>v \<in> set (butlast acc). good_part v"
    using Cons.prems(1) by (meson in_set_butlastD)
  consider (skip) "w = [] \<or> w = ''.''" | (up) "w = ''..''"
    | (down) "w \<noteq> []" "w \<noteq> ''.''" "w \<noteq> ''..''"
    by blast
  then show ?case
  proof cases
    case skip
    then have eq: "resolve acc (w # ws) = resolve acc ws" by auto
    have r: "\<forall>v \<in> set (resolve acc ws). good_part v"
      by (rule Cons.IH [OF Cons.prems(1) rest])
    show ?thesis unfolding eq by (rule r)
  next
    case up
    show ?thesis
    proof (cases "acc = []")
      case True
      with up have eq: "resolve acc (w # ws) = resolve acc ws" by simp
      have r: "\<forall>v \<in> set (resolve acc ws). good_part v"
        by (rule Cons.IH [OF Cons.prems(1) rest])
      show ?thesis unfolding eq by (rule r)
    next
      case False
      with up have eq: "resolve acc (w # ws) = resolve (butlast acc) ws" by simp
      have r: "\<forall>v \<in> set (resolve (butlast acc) ws). good_part v"
        by (rule Cons.IH [OF bl rest])
      show ?thesis unfolding eq by (rule r)
    qed
  next
    case down
    then have eq: "resolve acc (w # ws) = resolve (acc @ [w]) ws" by simp
    have "good_part w" using down Cons.prems(2) by (simp add: good_part_def)
    then have g: "\<forall>v \<in> set (acc @ [w]). good_part v" using Cons.prems(1) by simp
    have r: "\<forall>v \<in> set (resolve (acc @ [w]) ws). good_part v"
      by (rule Cons.IH [OF g rest])
    show ?thesis unfolding eq by (rule r)
  qed
qed

lemma resolve_all_good: "\<forall>w \<in> set ws. good_part w \<Longrightarrow> resolve acc ws = acc @ ws"
proof (induction ws arbitrary: acc)
  case Nil
  then show ?case by simp
next
  case (Cons w ws)
  then have "w \<noteq> []" "w \<noteq> ''.''" "w \<noteq> ''..''" by (simp_all add: good_part_def)
  then have eq: "resolve acc (w # ws) = resolve (acc @ [w]) ws" by simp
  have "resolve (acc @ [w]) ws = (acc @ [w]) @ ws"
    using Cons.prems by (intro Cons.IH) simp
  then show ?case by (simp only: eq) simp
qed

lemma normalize_path_shape:
  "\<exists>ws. (\<forall>w \<in> set ws. good_part w) \<and>
        normalize_path cur p = (if ws \<noteq> [] then ''/'' @ join ''/'' ws else ''/'')"
proof -
  define p' where "p' = (if \<not> startswith_slash p
                then (if cur = ''/'' then ''/'' @ p else cur @ ''/'' @ p) else p)"
  have "\<forall>w \<in> set (resolve [] (split CHR ''/'' p')). good_part w"
    by (rule resolve_good) (auto dest: split_no_sep)
  moreover have "normalize_path cur p =
      (if resolve [] (split CHR ''/'' p') \<noteq> [] then ''/'' @ join ''/'' (resolve [] (split CHR ''/'' p')) else ''/'')"
    unfolding normalize_path_def p'_def Let_def by simp
  ultimately show ?thesis by blast
qed

lemma canonical_join:
  "\<forall>w \<in> set ws. good_part w \<Longrightarrow> canonical (if ws \<noteq> [] then ''/'' @ join ''/'' ws else ''/'')"
proof (cases "ws = []")
  case True
  then show ?thesis by (simp add: canonical_def)
next
  case False
  assume g: "\<forall>w \<in> set ws. good_part w"
  then have "\<forall>w \<in> set ws. CHR ''/'' \<notin> set w" by (simp add: good_part_def)
  with False have "split CHR ''/'' (join ''/'' ws) = ws"
    using split_join [of ws "CHR ''/''"] by simp
  with False g show ?thesis by (simp add: canonical_def startswith_slash_def)
qed

lemma canonical_normalize_path: "canonical (normalize_path cur p)"
proof -
  obtain ws where "\<forall>w \<in> set ws. good_part w"
    and "normalize_path cur p = (if ws \<noteq> [] then ''/'' @ join ''/'' ws else ''/'')"
    using normalize_path_shape [of cur p] by blast
  then show ?thesis using canonical_join [of ws] by simp
qed

lemma normalize_path_canonical: "canonical p \<Longrightarrow> normalize_path cur p = p"
proof (cases "p = ''/''")
  case True
  then show ?thesis by (simp add: normalize_path_def startswith_slash_def)
next
  case False
  assume "canonical p"
  with False obtain t where p: "p = CHR ''/'' # t"
    and g: "\<forall>w \<in> set (split CHR ''/'' t). good_part w"
    by (cases p) (auto simp: canonical_def startswith_slash_def)
  have "resolve [] (split CHR ''/'' p) = split CHR ''/'' t"
    using p g by (simp add: resolve_all_good)
  then show ?thesis
    using p join_split [of "CHR ''/''" t]
    by (simp add: normalize_path_def startswith_slash_def)
qed

lemma normalize_path_fixed:
  "normalize_path b' (normalize_path b p) = normalize_path b p"
  by (rule normalize_path_canonical) (rule canonical_normalize_path)

text \<open>
  Claim C9. Normalization is idempotent: for every raw path \<open>p\<close> and every base \<open>b\<close>, normalizing
  \<open>normalize_path b p\<close> again, against \<open>b\<close> or any other base \<open>b'\<close>, returns the same string.
\<close>

theorem normalize_path_idempotent:
  "normalize_path b (normalize_path b p) = normalize_path b p \<and>
   normalize_path b' (normalize_path b p) = normalize_path b p"
proof -
  have c: "canonical (normalize_path b p)" by (rule canonical_normalize_path)
  show ?thesis
    using normalize_path_canonical [OF c, of b] normalize_path_canonical [OF c, of b'] by simp
qed

theorem normalize_path_idempotent_witness:
  "normalize_path ''/x'' (normalize_path ''/x'' ''a/../b'') = normalize_path ''/x'' ''a/../b'' \<and>
   normalize_path ''/tmp'' (normalize_path ''/x'' ''a/../b'') = ''/x/b''"
  using normalize_path_idempotent [of "''/x''" "''a/../b''" "''/tmp''"]
  by (simp add: normalize_path_def startswith_slash_def)

subsection \<open>Queries and the mutating methods\<close>

lemma sql_count_path_pos: "(sql_count_path t p > 0) = (p \<in> path ` set t)"
  by (auto simp: sql_count_path_def filter_empty_conv)

lemma sql_fetchone_None: "(sql_fetchone t p = None) = (p \<notin> path ` set t)"
  by (auto simp: sql_fetchone_def find_None_iff)

lemma sql_fetchone_Some: "sql_fetchone t p = Some r \<Longrightarrow> r \<in> set t \<and> path r = p"
  by (auto simp: sql_fetchone_def find_Some_iff)

lemma exists_iff: "exists s p = (normalize_path (current_path s) p \<in> path ` set (rows s))"
  by (simp add: exists_def sql_count_path_pos)

lemma exists_normalized [simp]: "exists s (normalize_path (current_path s) p) = exists s p"
  by (simp add: exists_def normalize_path_fixed)

lemma is_file_normalized [simp]: "is_file s (normalize_path (current_path s) p) = is_file s p"
  by (simp add: is_file_def normalize_path_fixed)

lemma is_directory_normalized [simp]:
  "is_directory s (normalize_path (current_path s) p) = is_directory s p"
  by (simp add: is_directory_def normalize_path_fixed)

lemma sql_fetchone_Some_in: "sql_fetchone t p = Some r \<Longrightarrow> p \<in> path ` set t"
  using sql_fetchone_None [of t p] by simp

lemma is_file_exists: "is_file s p \<Longrightarrow> exists s p"
  unfolding is_file_def exists_iff
  by (cases "sql_fetchone (rows s) (normalize_path (current_path s) p)")
     (simp_all add: sql_fetchone_Some_in)

lemma is_directory_exists: "is_directory s p \<Longrightarrow> exists s p"
  unfolding is_directory_def exists_iff
  by (cases "sql_fetchone (rows s) (normalize_path (current_path s) p)")
     (simp_all add: sql_fetchone_Some_in)

lemma not_file_and_directory: "\<not> (is_file s p \<and> is_directory s p)"
  by (auto simp: is_file_def is_directory_def split: option.splits)

lemma exists_kind:
  assumes "\<forall>r \<in> set (rows s). rtype r \<in> {''file'', ''directory''}" and "exists s p"
  shows "is_file s p \<or> is_directory s p"
proof -
  obtain r where r: "sql_fetchone (rows s) (normalize_path (current_path s) p) = Some r"
    using assms(2) sql_fetchone_None [of "rows s" "normalize_path (current_path s) p"]
    by (auto simp: exists_iff)
  then have "r \<in> set (rows s)" by (simp add: sql_fetchone_Some)
  with assms(1) have "rtype r = ''file'' \<or> rtype r = ''directory''" by auto
  with r show ?thesis by (auto simp: is_file_def is_directory_def)
qed

lemma sql_insert_fresh:
  "path r \<notin> path ` set t \<Longrightarrow> rtype r \<in> {''file'', ''directory''} \<Longrightarrow> sql_insert r t = Inr (t @ [r])"
  by (simp add: sql_insert_def)

lemma write_file_result:
  "write_file s p c a =
     (let q = normalize_path (current_path s) p
      in if exists s p then
           (if \<not> is_file s p then Inr (False, s)
            else Inr (True, s\<lparr>rows := sql_update_content (rows s) q
                    (if a then (case sql_fetchone (rows s) q of None \<Rightarrow> c | Some r \<Rightarrow> content r @ c)
                     else c)\<rparr>))
         else Inr (True, s\<lparr>rows := rows s @
                 [\<lparr>path = q, name = basename q, rtype = ''file'', content = c\<rparr>]\<rparr>))"
  by (simp add: write_file_def Let_def sql_insert_fresh exists_iff [symmetric])

lemma create_directory_result:
  "create_directory s p =
     (let q = normalize_path (current_path s) p
      in if exists s p then Inr (False, s)
         else if dirname q \<noteq> q \<and> \<not> exists s (dirname q) then Inr (False, s)
         else Inr (True, s\<lparr>rows := rows s @
                 [\<lparr>path = q, name = basename q, rtype = ''directory'', content = ''''\<rparr>]\<rparr>))"
  by (simp add: create_directory_def Let_def sql_insert_fresh exists_iff [symmetric])

lemma default_rows_eval:
  "default_rows =
    [\<lparr>path = ''/'', name = ''root'', rtype = ''directory'', content = ''''\<rparr>,
     \<lparr>path = ''/home'', name = ''home'', rtype = ''directory'', content = ''''\<rparr>,
     \<lparr>path = ''/tmp'', name = ''tmp'', rtype = ''directory'', content = ''''\<rparr>,
     \<lparr>path = ''/usr'', name = ''usr'', rtype = ''directory'', content = ''''\<rparr>,
     \<lparr>path = ''/var'', name = ''var'', rtype = ''directory'', content = ''''\<rparr>,
     \<lparr>path = ''/welcome.txt'', name = ''welcome.txt'', rtype = ''file'', content = welcome_text\<rparr>]"
  by (simp add: default_rows_def default_dirs_def basename_def)

lemma sql_insert_many_default: "sql_insert_many default_rows [] = Inr default_rows"
  by (simp add: default_rows_eval sql_insert_def)

lemma reset_filesystem_result: "reset_filesystem s = Inr (True, vfs0)"
  by (simp add: reset_filesystem_def sql_insert_many_default vfs0_def)

lemma VFS_init_fresh: "VFS_init [] = Inr vfs0"
  by (simp add: VFS_init_def init_database_def sql_count_path_def sql_insert_many_default vfs0_def)

lemma wf_table_update: "wf_table t \<Longrightarrow> wf_table (sql_update_content t q c)"
proof -
  have "map path (sql_update_content t q c) = map path t"
    by (simp add: sql_update_content_def)
  moreover have "\<forall>r \<in> set (sql_update_content t q c). \<exists>r' \<in> set t. path r = path r' \<and> rtype r = rtype r'"
    by (auto simp: sql_update_content_def)
  moreover assume "wf_table t"
  ultimately show ?thesis unfolding wf_table_def by metis
qed

lemma wf_table_snoc:
  "wf_table t \<Longrightarrow> path r \<notin> path ` set t \<Longrightarrow> canonical (path r)
   \<Longrightarrow> rtype r \<in> {''file'', ''directory''} \<Longrightarrow> wf_table (t @ [r])"
  by (auto simp: wf_table_def)

lemma wf_table_delete: "wf_table t \<Longrightarrow> wf_table (sql_delete t q)"
  by (auto simp: wf_table_def sql_delete_def distinct_map_filter)

lemma wf_table_default: "wf_table default_rows"
  by (simp add: wf_table_def default_rows_eval canonical_def startswith_slash_def good_part_def)

lemma wf_vfs0: "wf vfs0"
  by (simp add: wf_def vfs0_def wf_table_default canonical_def)

lemma wf_write_file: "wf s \<Longrightarrow> wf (after s (write_file s p c a))"
  by (auto simp: write_file_result Let_def wf_def exists_iff canonical_normalize_path
        intro!: wf_table_update wf_table_snoc)

lemma wf_create_directory: "wf s \<Longrightarrow> wf (after s (create_directory s p))"
  by (auto simp: create_directory_result Let_def wf_def exists_iff canonical_normalize_path
        intro!: wf_table_snoc)

lemma wf_remove: "wf s \<Longrightarrow> wf (after s (remove s p))"
  by (auto simp: remove_def Let_def wf_def split: sum.splits intro!: wf_table_delete)

lemma wf_change_directory: "wf s \<Longrightarrow> wf (snd (change_directory s p))"
  by (auto simp: change_directory_def Let_def wf_def canonical_normalize_path)

lemma wf_exec: "wf s \<Longrightarrow> wf (exec o' s)"
  by (cases o')
     (simp_all add: wf_write_file wf_create_directory wf_remove wf_change_directory
        reset_filesystem_result wf_vfs0)

lemma run_snoc: "run (ops @ [o']) s = exec o' (run ops s)"
  by (simp add: run_def)

lemma run_Nil: "run [] s = s"
  by (simp add: run_def)

lemma run_Cons: "run (o' # ops) s = run ops (exec o' s)"
  by (simp add: run_def)

lemma wf_run: "wf s \<Longrightarrow> wf (run ops s)"
  by (induction ops rule: rev_induct) (simp_all add: run_Nil run_snoc wf_exec)

lemma wf_reachable: "wf (run ops vfs0)"
  by (rule wf_run) (rule wf_vfs0)

lemma list_root_vfs0:
  "list_directory vfs0 (Some ''/'') =
     Inr (Some [(''welcome.txt'', ''file''), (''home'', ''directory''), (''tmp'', ''directory''),
           (''usr'', ''directory''), (''var'', ''directory'')])"
  by code_simp

lemma read_welcome_vfs0: "read_file vfs0 ''/welcome.txt'' = Some welcome_text"
  by code_simp



lemma paths_update: "path ` set (sql_update_content t q c) = path ` set t"
proof -
  have "map path (sql_update_content t q c) = map path t"
    by (simp add: sql_update_content_def)
  then show ?thesis by (metis set_map)
qed






text \<open>
  Claim C10. In every reachable state and for every path, \<^verbatim>\<open>is_file\<close> and
  \<^verbatim>\<open>is_directory\<close> are never both true, and \<^verbatim>\<open>exists\<close> holds exactly when one of the
  two does.
\<close>

theorem kind_exclusive:
  "\<not> (is_file (run ops vfs0) p \<and> is_directory (run ops vfs0) p) \<and>
   exists (run ops vfs0) p = (is_file (run ops vfs0) p \<noteq> is_directory (run ops vfs0) p)"
proof -
  let ?s = "run ops vfs0"
  have ty: "\<forall>r \<in> set (rows ?s). rtype r \<in> {''file'', ''directory''}"
    using wf_reachable [of ops] by (simp add: wf_def wf_table_def)
  show ?thesis
    using exists_kind [OF ty, of p] not_file_and_directory [of ?s p]
      is_file_exists [of ?s p] is_directory_exists [of ?s p]
    by blast
qed

text \<open>
  Claim C8. After any sequence of operations, \<^verbatim>\<open>reset_filesystem\<close> gives back the startup
  object: listing the root yields the file \<^verbatim>\<open>welcome.txt\<close> and the directories
  \<^verbatim>\<open>home\<close>, \<^verbatim>\<open>tmp\<close>, \<^verbatim>\<open>usr\<close>, \<^verbatim>\<open>var\<close> and nothing else, the cursor is the root,
  and the welcome file holds the fixed text.
\<close>

theorem reset_determinism:
  "exec Reset (run ops vfs0) = vfs0 \<and>
   list_directory (exec Reset (run ops vfs0)) (Some ''/'') =
     Inr (Some [(''welcome.txt'', ''file''), (''home'', ''directory''), (''tmp'', ''directory''),
           (''usr'', ''directory''), (''var'', ''directory'')]) \<and>
   current_path (exec Reset (run ops vfs0)) = ''/'' \<and>
   read_file (exec Reset (run ops vfs0)) ''/welcome.txt'' = Some welcome_text"
  by (simp add: reset_filesystem_result list_root_vfs0 read_welcome_vfs0) (simp add: vfs0_def)

theorem kind_exclusive_witness:
  "exists (run [CreateDirectory ''a''] vfs0) ''/a'' \<and>
   is_directory (run [CreateDirectory ''a''] vfs0) ''/a'' \<and>
   \<not> is_file (run [CreateDirectory ''a''] vfs0) ''/a''"
proof -
  have "is_directory (run [CreateDirectory ''a''] vfs0) ''/a''" by code_simp
  then show ?thesis using kind_exclusive [of "[CreateDirectory ''a'']" "''/a''"] by simp
qed

theorem reset_determinism_witness:
  "exec Reset (run [Remove ''/home'', ChangeDirectory ''tmp''] vfs0) = vfs0 \<and>
   read_file (exec Reset (run [Remove ''/home'', ChangeDirectory ''tmp''] vfs0)) ''/welcome.txt''
     = Some welcome_text"
  using reset_determinism [of "[Remove ''/home'', ChangeDirectory ''tmp'']"] by blast

subsection \<open>The order of a listing\<close>

lemma row_le_total: "row_le a b \<or> row_le b a"
  unfolding row_le_def by (metis linorder_less_linear linorder_linear)

lemma row_le_trans: "row_le a b \<Longrightarrow> row_le b c \<Longrightarrow> row_le a c"
  unfolding row_le_def by (metis order.strict_trans order_trans)

lemma set_insert_row: "set (insert_row r xs) = insert r (set xs)"
  by (induction xs) auto

lemma sorted_insert_row: "sorted_wrt row_le xs \<Longrightarrow> sorted_wrt row_le (insert_row r xs)"
proof (induction xs)
  case Nil
  then show ?case by simp
next
  case (Cons x xs)
  show ?case
  proof (cases "row_le r x")
    case True
    then have "\<forall>y \<in> set xs. row_le r y"
      using Cons.prems row_le_trans by auto
    with True Cons.prems show ?thesis by simp
  next
    case False
    then have "row_le x r" using row_le_total by blast
    with False Cons show ?thesis by (simp add: set_insert_row)
  qed
qed

lemma sorted_order_by: "sorted_wrt row_le (order_by_type_desc_name t)"
  unfolding order_by_type_desc_name_def
  by (induction t) (simp_all add: sorted_insert_row)

lemma file_after_directory: "''directory'' < ''file''"
  by simp

lemma row_le_files_first:
  "row_le a b \<Longrightarrow>
     \<not> (rtype a = ''directory'' \<and> rtype b = ''file'') \<and> (rtype a = rtype b \<longrightarrow> name a \<le> name b)"
  unfolding row_le_def using file_after_directory by auto

lemma files_first_order_by:
  "files_first (map (\<lambda>r. (name r, rtype r)) (order_by_type_desc_name t))"
  unfolding files_first_def sorted_wrt_map
  by (rule sorted_wrt_mono_rel [OF _ sorted_order_by]) (simp add: row_le_files_first)

text \<open>
  Claim C5, as amended. Whenever \<^verbatim>\<open>list_directory\<close> returns a listing, its entries are ordered
  by type descending and then by name: entries of type \<^verbatim>\<open>file\<close> come before entries of
  type \<^verbatim>\<open>directory\<close>, and entries of one type are in ascending order of their names.
\<close>

theorem list_directory_order:
  "list_directory s d = Inr (Some xs) \<Longrightarrow> files_first xs"
  by (auto simp: list_directory_def Let_def files_first_order_by split: if_splits sum.splits)

theorem list_directory_order_witness:
  "list_directory vfs0 (Some ''/'') =
     Inr (Some [(''welcome.txt'', ''file''), (''home'', ''directory''), (''tmp'', ''directory''),
           (''usr'', ''directory''), (''var'', ''directory'')]) \<and>
   files_first [(''welcome.txt'', ''file''), (''home'', ''directory''), (''tmp'', ''directory''),
           (''usr'', ''directory''), (''var'', ''directory'')]"
  using list_directory_order [OF list_root_vfs0] list_root_vfs0 by simp

text \<open>
  The claim as it was stated, directories before files, fails for the listing of the root of
  the startup object: the file \<^verbatim>\<open>welcome.txt\<close> is its first entry.
\<close>

theorem directories_first_counterexample:
  "list_directory vfs0 (Some ''/'') =
     Inr (Some [(''welcome.txt'', ''file''), (''home'', ''directory''), (''tmp'', ''directory''),
           (''usr'', ''directory''), (''var'', ''directory'')]) \<and>
   is_directory vfs0 ''/'' \<and>
   \<not> dirs_first [(''welcome.txt'', ''file''), (''home'', ''directory''), (''tmp'', ''directory''),
           (''usr'', ''directory''), (''var'', ''directory'')]"
  by (simp add: list_root_vfs0 dirs_first_def) code_simp

subsection \<open>The parent of a canonical path\<close>

lemma join_snoc: "join sep (ws @ [w]) = (if ws = [] then w else join sep ws @ sep @ w)"
proof (induction ws)
  case Nil
  then show ?case by simp
next
  case (Cons v ws)
  then show ?case by (cases ws) auto
qed

lemma canonical_cases:
  assumes "canonical q" and "q \<noteq> ''/''"
  obtains ws w where "\<forall>v \<in> set ws. good_part v" and "good_part w"
    and "q = (if ws = [] then ''/'' else ''/'' @ join ''/'' ws @ ''/'') @ w"
proof -
  from assms obtain t where q: "q = CHR ''/'' # t"
    and g: "\<forall>w \<in> set (split CHR ''/'' t). good_part w"
    by (cases q) (auto simp: canonical_def startswith_slash_def)
  obtain ws w where sp: "split CHR ''/'' t = ws @ [w]"
    using split_not_Nil [of "CHR ''/''" t] by (meson rev_exhaust)
  have "t = join ''/'' (ws @ [w])"
    using join_split [of "CHR ''/''" t] sp by simp
  then have "q = (if ws = [] then ''/'' else ''/'' @ join ''/'' ws @ ''/'') @ w"
    using q by (simp add: join_snoc)
  moreover have "\<forall>v \<in> set ws. good_part v" "good_part w" using g sp by simp_all
  ultimately show ?thesis using that by blast
qed

lemma dirname_append:
  assumes "CHR ''/'' \<notin> set w"
  shows "dirname (pre @ ''/'' @ w) =
     (if \<exists>c \<in> set pre. c \<noteq> CHR ''/''
      then rev (dropWhile (\<lambda>c. c = CHR ''/'') (rev pre)) else pre @ ''/'')"
proof -
  have "\<And>x. x \<in> set (rev w) \<Longrightarrow> x \<noteq> CHR ''/''" using assms by auto
  then have "dropWhile (\<lambda>c. c \<noteq> CHR ''/'') (rev w @ CHR ''/'' # rev pre) =
      dropWhile (\<lambda>c. c \<noteq> CHR ''/'') (CHR ''/'' # rev pre)"
    by (rule dropWhile_append2)
  then have "dropWhile (\<lambda>c. c \<noteq> CHR ''/'') (rev (pre @ ''/'' @ w)) = CHR ''/'' # rev pre"
    by simp
  then show ?thesis by (auto simp: dirname_def Let_def)
qed

lemma join_good_last:
  assumes "ws \<noteq> []" and "\<forall>v \<in> set ws. good_part v"
  shows "join ''/'' ws \<noteq> [] \<and> last (join ''/'' ws) \<noteq> CHR ''/''"
proof -
  obtain us w where ws: "ws = us @ [w]" using assms(1) by (meson rev_exhaust)
  then have w: "w \<noteq> []" "CHR ''/'' \<notin> set w" using assms(2) by (simp_all add: good_part_def)
  then have lw: "last w \<in> set w" by simp
  have "last w \<noteq> CHR ''/''"
  proof
    assume "last w = CHR ''/''"
    with lw have "CHR ''/'' \<in> set w" by simp
    with w(2) show False by simp
  qed
  then show ?thesis using ws w by (simp add: join_snoc)
qed

lemma dirname_canonical:
  assumes "canonical q"
  shows "canonical (dirname q) \<and> (dirname q = q) = (q = ''/'')"
proof (cases "q = ''/''")
  case True
  then show ?thesis by (simp add: dirname_def canonical_def)
next
  case False
  with assms obtain ws w where g: "\<forall>v \<in> set ws. good_part v" and gw: "good_part w"
    and q: "q = (if ws = [] then ''/'' else ''/'' @ join ''/'' ws @ ''/'') @ w"
    by (rule canonical_cases)
  have w: "CHR ''/'' \<notin> set w" "w \<noteq> []" using gw by (simp_all add: good_part_def)
  show ?thesis
  proof (cases "ws = []")
    case True
    then have "q = [] @ ''/'' @ w" using q by simp
    then have "dirname q = ''/''" using dirname_append [OF w(1), of "[]"] by simp
    then show ?thesis using False by (simp add: canonical_def)
  next
    case ne: False
    let ?pre = "''/'' @ join ''/'' ws"
    have q': "q = ?pre @ ''/'' @ w" using q ne by simp
    have l: "join ''/'' ws \<noteq> []" "last (join ''/'' ws) \<noteq> CHR ''/''"
      using join_good_last [OF ne g] by simp_all
    have "last (join ''/'' ws) \<in> set ?pre"
      using l(1) by simp
    then have ex: "\<exists>c \<in> set ?pre. c \<noteq> CHR ''/''"
      using l(2) by blast
    define bs where "bs = butlast (join ''/'' ws)"
    have j: "join ''/'' ws = bs @ [last (join ''/'' ws)]"
      using l(1) by (simp add: bs_def)
    have r: "rev ?pre = last (join ''/'' ws) # (rev bs @ ''/'')"
      by (subst j) simp
    have "dropWhile (\<lambda>c. c = CHR ''/'') (last (join ''/'' ws) # (rev bs @ ''/'')) =
        last (join ''/'' ws) # (rev bs @ ''/'')"
      using l(2) by simp
    then have "dropWhile (\<lambda>c. c = CHR ''/'') (rev ?pre) = rev ?pre"
      by (simp only: r)
    then have d: "dirname q = ?pre"
      using dirname_append [OF w(1), of ?pre] ex q' by simp
    have "canonical ?pre" using canonical_join [OF g] ne by simp
    moreover have "length (dirname q) < length q" by (simp only: d) (simp add: q')
    then have "dirname q \<noteq> q" by auto
    ultimately show ?thesis using False by (simp add: d)
  qed
qed

lemma exists_dirname:
  "exists s (dirname (normalize_path (current_path s) p)) =
     (dirname (normalize_path (current_path s) p) \<in> path ` set (rows s))"
  using dirname_canonical [OF canonical_normalize_path, of "current_path s" p]
  by (simp add: exists_iff normalize_path_canonical)

text \<open>
  What \<^verbatim>\<open>create_directory\<close> does, case by case, with \<open>q\<close> the normalized path: it returns
  \<^verbatim>\<open>False\<close> and changes nothing when \<open>q\<close> is stored already, and when \<open>q\<close> is not the root
  and \<open>dirname q\<close> is not stored; in every other case it returns \<^verbatim>\<open>True\<close> and appends a
  directory row for \<open>q\<close>. The kind of the parent row is never looked at.
\<close>

lemma create_directory_cases:
  "(normalize_path (current_path s) p \<in> path ` set (rows s)
      \<longrightarrow> create_directory s p = Inr (False, s)) \<and>
   (normalize_path (current_path s) p \<notin> path ` set (rows s) \<and>
    normalize_path (current_path s) p \<noteq> ''/'' \<and>
    dirname (normalize_path (current_path s) p) \<notin> path ` set (rows s)
      \<longrightarrow> create_directory s p = Inr (False, s)) \<and>
   (normalize_path (current_path s) p \<notin> path ` set (rows s) \<and>
    (normalize_path (current_path s) p = ''/'' \<or>
     dirname (normalize_path (current_path s) p) \<in> path ` set (rows s))
      \<longrightarrow> create_directory s p =
            Inr (True, s\<lparr>rows := rows s @
              [\<lparr>path = normalize_path (current_path s) p,
                name = basename (normalize_path (current_path s) p),
                rtype = ''directory'', content = ''''\<rparr>]\<rparr>)) \<and>
   (returns_true (create_directory s p) \<and> normalize_path (current_path s) p \<noteq> ''/''
      \<longrightarrow> dirname (normalize_path (current_path s) p) \<in> path ` set (rows s))"
proof -
  let ?q = "normalize_path (current_path s) p"
  let ?r = "\<lparr>path = ?q, name = basename ?q, rtype = ''directory'', content = ''''\<rparr>"
  have root: "(dirname ?q = ?q) = (?q = ''/'')"
    using dirname_canonical [OF canonical_normalize_path, of "current_path s" p] by simp
  have e: "exists s p = (?q \<in> path ` set (rows s))"
    by (rule exists_iff)
  have pe: "exists s (dirname ?q) = (dirname ?q \<in> path ` set (rows s))"
    by (rule exists_dirname)
  have "create_directory s p =
      (if exists s p then Inr (False, s)
       else if dirname ?q \<noteq> ?q \<and> \<not> exists s (dirname ?q) then Inr (False, s)
       else Inr (True, s\<lparr>rows := rows s @ [?r]\<rparr>))"
    by (simp add: create_directory_result Let_def)
  then have c: "create_directory s p =
      (if ?q \<in> path ` set (rows s) then Inr (False, s)
       else if ?q \<noteq> ''/'' \<and> dirname ?q \<notin> path ` set (rows s) then Inr (False, s)
       else Inr (True, s\<lparr>rows := rows s @ [?r]\<rparr>))"
    by (simp only: e pe root)
  show ?thesis
    by (simp only: c) simp
qed

text \<open>
  Claim C6. \<^verbatim>\<open>create_directory\<close> is meant to create a directory only under an existing
  directory (the source comment reads ``Check parent directory exists''), but it tests the
  parent with \<^verbatim>\<open>exists\<close> alone: in the startup object the call for
  \<^verbatim>\<open>/welcome.txt/sub\<close> returns \<^verbatim>\<open>True\<close> and stores a directory whose parent
  \<^verbatim>\<open>/welcome.txt\<close> is a file and not a directory.
\<close>

theorem create_directory_under_file:
  "create_directory vfs0 ''/welcome.txt/sub'' =
     Inr (True, vfs0\<lparr>rows := rows vfs0 @
       [\<lparr>path = ''/welcome.txt/sub'', name = ''sub'', rtype = ''directory'', content = ''''\<rparr>]\<rparr>) \<and>
   dirname ''/welcome.txt/sub'' = ''/welcome.txt'' \<and>
   is_file vfs0 ''/welcome.txt'' \<and>
   \<not> is_directory vfs0 ''/welcome.txt'' \<and>
   is_directory (after vfs0 (create_directory vfs0 ''/welcome.txt/sub'')) ''/welcome.txt/sub''"
  by code_simp

theorem create_directory_under_file_witness:
  "returns_true (create_directory vfs0 ''/welcome.txt/sub'') \<and>
   \<not> is_directory vfs0 ''/welcome.txt''"
  using create_directory_under_file by simp

subsection \<open>What the children pattern matches\<close>






lemma cstr_no_nul: "CHR 0x00 \<notin> set s \<Longrightarrow> cstr s = s"
  by (auto simp: cstr_def takeWhile_eq_all_conv)





subsection \<open>The root row\<close>





















subsection \<open>The cursor\<close>

lemma cursor_valid_vfs0: "cursor_valid vfs0"
  by (simp add: cursor_valid_def vfs0_def default_rows_eval)

lemma cursor_write_file: "current_path (after s (write_file s p c a)) = current_path s"
  by (simp add: write_file_result Let_def)

lemma cursor_create_directory: "current_path (after s (create_directory s p)) = current_path s"
  by (simp add: create_directory_result Let_def)

lemma cursor_remove: "current_path (after s (remove s p)) = current_path s"
  by (auto simp: remove_def Let_def split: sum.splits)

lemma cursor_valid_update:
  "cursor_valid s \<Longrightarrow> cursor_valid (s\<lparr>rows := sql_update_content (rows s) q c\<rparr>)"
proof -
  assume "cursor_valid s"
  then obtain r where r: "r \<in> set (rows s)" "path r = current_path s" "rtype r = ''directory''"
    by (auto simp: cursor_valid_def)
  let ?r = "if path r = q then r\<lparr>content := c\<rparr> else r"
  have "?r \<in> set (sql_update_content (rows s) q c)"
    using r(1) by (force simp: sql_update_content_def intro: rev_image_eqI)
  moreover have "path ?r = current_path s" "rtype ?r = ''directory''" using r by simp_all
  ultimately show ?thesis unfolding cursor_valid_def by (intro bexI [of _ ?r]) simp_all
qed

lemma cursor_valid_snoc: "cursor_valid s \<Longrightarrow> cursor_valid (s\<lparr>rows := rows s @ [r]\<rparr>)"
  by (auto simp: cursor_valid_def)

lemma cursor_valid_write_file: "cursor_valid s \<Longrightarrow> cursor_valid (after s (write_file s p c a))"
  by (simp add: write_file_result Let_def cursor_valid_update cursor_valid_snoc)

lemma cursor_valid_create_directory:
  "cursor_valid s \<Longrightarrow> cursor_valid (after s (create_directory s p))"
  by (simp add: create_directory_result Let_def cursor_valid_snoc)

lemma remove_result:
  "(\<exists>e. remove s p = Inl e) \<or> remove s p = Inr (False, s) \<or>
   remove s p = Inr (True, s\<lparr>rows := sql_delete (rows s) (normalize_path (current_path s) p)\<rparr>)"
  by (auto simp: remove_def Let_def split: sum.splits)

lemma remove_failed: "\<not> returns_true (remove s p) \<Longrightarrow> after s (remove s p) = s"
  using remove_result [of s p] by auto

lemma remove_succeeded:
  "returns_true (remove s p) \<Longrightarrow>
   after s (remove s p) = s\<lparr>rows := sql_delete (rows s) (normalize_path (current_path s) p)\<rparr>"
  by (auto simp: remove_def Let_def split: sum.splits if_splits)

lemma cursor_valid_remove:
  assumes "cursor_valid s"
  shows "cursor_valid (after s (remove s p)) =
     (\<not> (returns_true (remove s p) \<and> normalize_path (current_path s) p = current_path s))"
proof (cases "returns_true (remove s p)")
  case False
  then show ?thesis using assms by (simp add: remove_failed)
next
  case True
  let ?q = "normalize_path (current_path s) p"
  have rm: "after s (remove s p) = s\<lparr>rows := sql_delete (rows s) ?q\<rparr>"
    using True by (rule remove_succeeded)
  show ?thesis
  proof (cases "?q = current_path s")
    case same: True
    have "\<not> cursor_valid (s\<lparr>rows := sql_delete (rows s) ?q\<rparr>)"
      using same by (auto simp: cursor_valid_def sql_delete_def)
    then show ?thesis using True same rm by simp
  next
    case other: False
    obtain r where r: "r \<in> set (rows s)" "path r = current_path s" "rtype r = ''directory''"
      using assms by (auto simp: cursor_valid_def)
    then have "r \<in> set (sql_delete (rows s) ?q)" using other by (simp add: sql_delete_def)
    then have "cursor_valid (s\<lparr>rows := sql_delete (rows s) ?q\<rparr>)"
      using r by (auto simp: cursor_valid_def)
    then show ?thesis using other rm by simp
  qed
qed

lemma remove_cursor_gone:
  assumes "returns_true (remove s p)" and "normalize_path (current_path s) p = current_path s"
  shows "current_path s \<notin> path ` set (rows (after s (remove s p)))"
proof -
  have "after s (remove s p) = s\<lparr>rows := sql_delete (rows s) (current_path s)\<rparr>"
    using remove_succeeded [OF assms(1)] assms(2) by simp
  then show ?thesis by (auto simp: sql_delete_def)
qed

lemma change_directory_valid:
  assumes "fst (change_directory s p)"
  shows "cursor_valid (snd (change_directory s p)) \<and>
         current_path (snd (change_directory s p)) = normalize_path (current_path s) p"
proof -
  let ?q = "normalize_path (current_path s) p"
  have d: "is_directory s p" and cd: "change_directory s p = (True, s\<lparr>current_path := ?q\<rparr>)"
    using assms by (auto simp: change_directory_def Let_def split: if_splits)
  then obtain r where "sql_fetchone (rows s) ?q = Some r" "rtype r = ''directory''"
    by (auto simp: is_directory_def split: option.splits)
  then have "r \<in> set (rows s)" "path r = ?q" "rtype r = ''directory''"
    by (simp_all add: sql_fetchone_Some)
  then show ?thesis using cd by (auto simp: cursor_valid_def)
qed

lemma change_directory_failed: "\<not> fst (change_directory s p) \<Longrightarrow> snd (change_directory s p) = s"
  by (auto simp: change_directory_def Let_def split: if_splits)

lemma cursor_exec:
  "current_path (exec o' s) =
     (case o' of
        Reset \<Rightarrow> ''/''
      | ChangeDirectory p \<Rightarrow>
          if fst (change_directory s p) then normalize_path (current_path s) p
          else current_path s
      | _ \<Rightarrow> current_path s)"
proof (cases o')
  case (ChangeDirectory p)
  then show ?thesis
    using change_directory_valid [of s p] change_directory_failed [of s p] by auto
next
  case Reset
  then show ?thesis by (simp add: reset_filesystem_result vfs0_def)
qed (simp_all add: cursor_write_file cursor_create_directory cursor_remove)

lemma cursor_valid_exec:
  assumes "cursor_valid s"
  shows "cursor_valid (exec o' s) =
     (\<not> (\<exists>p. o' = Remove p \<and> returns_true (remove s p) \<and>
               normalize_path (current_path s) p = current_path s))"
proof (cases o')
  case (WriteFile p c a)
  then show ?thesis using assms cursor_valid_write_file [of s p c a] by simp
next
  case (CreateDirectory p)
  then show ?thesis using assms cursor_valid_create_directory [of s p] by simp
next
  case (Remove p)
  then show ?thesis using cursor_valid_remove [OF assms, of p] by simp
next
  case (ChangeDirectory p)
  then show ?thesis
    using assms change_directory_valid [of s p] change_directory_failed [of s p]
    by (cases "fst (change_directory s p)") auto
next
  case Reset
  then show ?thesis by (simp add: reset_filesystem_result cursor_valid_vfs0)
qed

text \<open>
  Claim C4, as amended. In every reachable state the cursor is a canonical absolute path.
  \<^verbatim>\<open>reset_filesystem\<close> sets it to the root, which is then a stored directory; a
  successful \<^verbatim>\<open>change_directory\<close> sets it to the normalized path of a stored directory;
  a failed \<^verbatim>\<open>change_directory\<close> and every \<^verbatim>\<open>write_file\<close>, \<^verbatim>\<open>create_directory\<close> and
  \<^verbatim>\<open>remove\<close> leave it as it is. A cursor that is the path of a stored directory stays
  one under an operation exactly when the operation is not a successful \<^verbatim>\<open>remove\<close> of
  the cursor's own path; after such a \<^verbatim>\<open>remove\<close> no row has the cursor as its path.
\<close>

theorem cursor_invariant:
  "canonical (current_path (run ops vfs0)) \<and>
   current_path (exec Reset (run ops vfs0)) = ''/'' \<and>
   cursor_valid (exec Reset (run ops vfs0)) \<and>
   (fst (change_directory (run ops vfs0) p) \<longrightarrow>
      current_path (exec (ChangeDirectory p) (run ops vfs0)) =
        normalize_path (current_path (run ops vfs0)) p \<and>
      cursor_valid (exec (ChangeDirectory p) (run ops vfs0))) \<and>
   (\<not> fst (change_directory (run ops vfs0) p) \<longrightarrow>
      exec (ChangeDirectory p) (run ops vfs0) = run ops vfs0) \<and>
   current_path (exec (WriteFile p c a) (run ops vfs0)) = current_path (run ops vfs0) \<and>
   current_path (exec (CreateDirectory p) (run ops vfs0)) = current_path (run ops vfs0) \<and>
   current_path (exec (Remove p) (run ops vfs0)) = current_path (run ops vfs0) \<and>
   (cursor_valid (run ops vfs0) \<longrightarrow>
      cursor_valid (exec o' (run ops vfs0)) =
        (\<not> (\<exists>p. o' = Remove p \<and> returns_true (remove (run ops vfs0) p) \<and>
                  normalize_path (current_path (run ops vfs0)) p = current_path (run ops vfs0)))) \<and>
   (returns_true (remove (run ops vfs0) p) \<and>
    normalize_path (current_path (run ops vfs0)) p = current_path (run ops vfs0) \<longrightarrow>
      current_path (run ops vfs0) \<notin> path ` set (rows (exec (Remove p) (run ops vfs0))))"
proof -
  let ?s = "run ops vfs0"
  have 1: "canonical (current_path ?s)"
    using wf_reachable [of ops] by (simp add: wf_def)
  have 2: "current_path (exec Reset ?s) = ''/''"
    by (simp add: reset_filesystem_result vfs0_def)
  have 3: "cursor_valid (exec Reset ?s)"
    by (simp add: reset_filesystem_result cursor_valid_vfs0)
  have 4: "fst (change_directory ?s p) \<longrightarrow>
      current_path (exec (ChangeDirectory p) ?s) = normalize_path (current_path ?s) p \<and>
      cursor_valid (exec (ChangeDirectory p) ?s)"
    using change_directory_valid [of ?s p] by simp
  have 5: "\<not> fst (change_directory ?s p) \<longrightarrow> exec (ChangeDirectory p) ?s = ?s"
    using change_directory_failed [of ?s p] by simp
  have 6: "current_path (exec (WriteFile p c a) ?s) = current_path ?s"
    by (simp add: cursor_write_file)
  have 7: "current_path (exec (CreateDirectory p) ?s) = current_path ?s"
    by (simp add: cursor_create_directory)
  have 8: "current_path (exec (Remove p) ?s) = current_path ?s"
    by (simp add: cursor_remove)
  have 9: "cursor_valid ?s \<longrightarrow>
      cursor_valid (exec o' ?s) =
        (\<not> (\<exists>p. o' = Remove p \<and> returns_true (remove ?s p) \<and>
                  normalize_path (current_path ?s) p = current_path ?s))"
    using cursor_valid_exec [of ?s o'] by blast
  have 10: "returns_true (remove ?s p) \<and> normalize_path (current_path ?s) p = current_path ?s \<longrightarrow>
      current_path ?s \<notin> path ` set (rows (exec (Remove p) ?s))"
    using remove_cursor_gone [of ?s p] by simp
  from 1 2 3 4 5 6 7 8 9 10 show ?thesis by (intro conjI)
qed

theorem cursor_invariant_witness:
  "current_path (exec (ChangeDirectory ''/tmp'') (run [ChangeDirectory ''home''] vfs0)) = ''/tmp'' \<and>
   cursor_valid (exec (ChangeDirectory ''/tmp'') (run [ChangeDirectory ''home''] vfs0)) \<and>
   exec (ChangeDirectory ''nowhere'') (run [ChangeDirectory ''home''] vfs0) =
     run [ChangeDirectory ''home''] vfs0 \<and>
   \<not> cursor_valid (exec (Remove ''.'') (run [ChangeDirectory ''home''] vfs0)) \<and>
   ''/home'' \<notin> path ` set (rows (exec (Remove ''.'') (run [ChangeDirectory ''home''] vfs0)))"
proof -
  let ?s = "run [ChangeDirectory ''home''] vfs0"
  have cd: "fst (change_directory ?s ''/tmp'')" "\<not> fst (change_directory ?s ''nowhere'')"
    "normalize_path (current_path ?s) ''/tmp'' = ''/tmp''" by code_simp+
  have rm: "cursor_valid ?s" "returns_true (remove ?s ''.'')"
    "normalize_path (current_path ?s) ''.'' = current_path ?s" "current_path ?s = ''/home''"
    by code_simp+
  have a: "current_path (exec (ChangeDirectory ''/tmp'') ?s) = ''/tmp'' \<and>
           cursor_valid (exec (ChangeDirectory ''/tmp'') ?s)"
    using cd(1,3) cursor_invariant [of "[ChangeDirectory ''home'']" "''/tmp''"]
    by (simp del: exec.simps)
  have b: "exec (ChangeDirectory ''nowhere'') ?s = ?s"
    using cd(2) cursor_invariant [of "[ChangeDirectory ''home'']" "''nowhere''"]
    by (simp del: exec.simps)
  have c: "\<not> cursor_valid (exec (Remove ''.'') ?s)"
    using rm(1,2,3) cursor_invariant [of "[ChangeDirectory ''home'']" "''.''" _ _ "Remove ''.''"]
    by blast
  have d: "''/home'' \<notin> path ` set (rows (exec (Remove ''.'') ?s))"
    using rm(2,3,4) cursor_invariant [of "[ChangeDirectory ''home'']" "''.''"]
    by (simp del: exec.simps)
  from a b c d show ?thesis by (intro conjI) simp_all
qed

text \<open>
  The claim as it was stated fails twice. After \<^verbatim>\<open>cd home\<close> the call
  \<^verbatim>\<open>remove('/home')\<close> succeeds and leaves the cursor \<^verbatim>\<open>/home\<close> naming no row. After
  \<^verbatim>\<open>cd home\<close> the call \<^verbatim>\<open>reset_filesystem()\<close> moves the cursor from \<^verbatim>\<open>/home\<close> to
  the root, though it is no \<^verbatim>\<open>change_directory\<close>.
\<close>

theorem cursor_counterexample:
  "returns_true (remove (run [ChangeDirectory ''home''] vfs0) ''/home'') \<and>
   current_path (run [ChangeDirectory ''home'', Remove ''/home''] vfs0) = ''/home'' \<and>
   \<not> exists (run [ChangeDirectory ''home'', Remove ''/home''] vfs0) ''/home'' \<and>
   \<not> cursor_valid (run [ChangeDirectory ''home'', Remove ''/home''] vfs0) \<and>
   current_path (run [ChangeDirectory ''home''] vfs0) = ''/home'' \<and>
   current_path (exec Reset (run [ChangeDirectory ''home''] vfs0)) = ''/''"
  by code_simp

subsection \<open>Listing and removing at concrete inputs\<close>

text \<open>
  Claim C1. \<^verbatim>\<open>list_directory\<close> is meant to return the direct children only (the source
  comment reads ``Get direct children''), but in the pattern \<^verbatim>\<open>/a/[^/]*\<close> the star also
  matches slashes: after \<^verbatim>\<open>create_directory('/a')\<close>, \<^verbatim>\<open>create_directory('/a/b')\<close> and
  \<^verbatim>\<open>write_file('/a/b/f', 'x')\<close> the listing of \<^verbatim>\<open>/a\<close> holds the grandchild \<^verbatim>\<open>f\<close>
  next to the child \<^verbatim>\<open>b\<close>, where the claim expects \<^verbatim>\<open>b\<close> alone.
\<close>

theorem list_directory_lists_grandchild:
  "list_directory
     (run [CreateDirectory ''/a'', CreateDirectory ''/a/b'', WriteFile ''/a/b/f'' ''x'' False] vfs0)
     (Some ''/a'') = Inr (Some [(''f'', ''file''), (''b'', ''directory'')])"
  by code_simp

theorem list_directory_lists_grandchild_witness:
  "(''f'', ''file'') \<in> set (the (projr (list_directory
     (run [CreateDirectory ''/a'', CreateDirectory ''/a/b'', WriteFile ''/a/b/f'' ''x'' False] vfs0)
     (Some ''/a''))))"
  using list_directory_lists_grandchild by simp

text \<open>
  Claim C2. \<^verbatim>\<open>remove\<close> is meant to refuse exactly the directories that have descendants,
  but it splices the directory's path into a \<^verbatim>\<open>GLOB\<close> pattern as it is. The directory
  \<^verbatim>\<open>/a*\<close> has no descendant and is still refused, because its pattern matches
  \<^verbatim>\<open>/ab/c\<close>; the directory \<^verbatim>\<open>/[a]\<close> holds the file \<^verbatim>\<open>/[a]/x\<close> and is still
  removed, because its pattern matches the children of \<^verbatim>\<open>/a\<close> instead.
\<close>

theorem remove_glob_characters:
  "is_directory (run [CreateDirectory ''a*'', CreateDirectory ''ab'', WriteFile ''ab/c'' '''' False] vfs0) ''/a*'' \<and>
   descendants (run [CreateDirectory ''a*'', CreateDirectory ''ab'', WriteFile ''ab/c'' '''' False] vfs0) ''/a*'' = [] \<and>
   remove (run [CreateDirectory ''a*'', CreateDirectory ''ab'', WriteFile ''ab/c'' '''' False] vfs0) ''/a*'' =
     Inr (False, run [CreateDirectory ''a*'', CreateDirectory ''ab'', WriteFile ''ab/c'' '''' False] vfs0) \<and>
   is_directory (run [CreateDirectory ''[a]'', WriteFile ''[a]/x'' '''' False] vfs0) ''/[a]'' \<and>
   descendants (run [CreateDirectory ''[a]'', WriteFile ''[a]/x'' '''' False] vfs0) ''/[a]'' = [''/[a]/x''] \<and>
   returns_true (remove (run [CreateDirectory ''[a]'', WriteFile ''[a]/x'' '''' False] vfs0) ''/[a]'') \<and>
   \<not> exists (exec (Remove ''/[a]'') (run [CreateDirectory ''[a]'', WriteFile ''[a]/x'' '''' False] vfs0)) ''/[a]''"
  by code_simp

theorem remove_glob_characters_witness:
  "\<not> returns_true (remove (run [CreateDirectory ''a*'', CreateDirectory ''ab'', WriteFile ''ab/c'' '''' False] vfs0) ''/a*'') \<and>
   returns_true (remove (run [CreateDirectory ''[a]'', WriteFile ''[a]/x'' '''' False] vfs0) ''/[a]'')"
  using remove_glob_characters by simp

end
